theory Spec2Isabelle
  imports Main "HOL-Library.Sublist"
begin

section \<open>Strings as the engine uses them\<close>

text \<open>
  A JavaScript string is represented by the bytes of its UTF-8 encoding (\<^typ>\<open>string\<close>). Every
  pattern the engine looks for is ASCII, so the string primitives used by
  \<^verbatim>\<open>src/engine/server.ts\<close> that search, split and compare are modelled on the bytes. The
  length of the list is what \<^verbatim>\<open>Buffer.byteLength(s, "utf-8")\<close> counts; what \<^verbatim>\<open>s.length\<close> counts,
  UTF-16 code units, is \<open>js_length\<close> below.
\<close>

definition LF :: char where
  "LF = CHR 0x0A"

definition CR :: char where
  "CR = CHR 0x0D"

text \<open>\<^verbatim>\<open>s.startsWith(p)\<close>, \<^verbatim>\<open>s.endsWith(p)\<close>, \<^verbatim>\<open>s.includes(t)\<close>.\<close>

definition startsWith :: "string \<Rightarrow> string \<Rightarrow> bool" where
  "startsWith s p = prefix p s"

definition endsWith :: "string \<Rightarrow> string \<Rightarrow> bool" where
  "endsWith s p = suffix p s"

fun str_includes :: "string \<Rightarrow> string \<Rightarrow> bool" where
  "str_includes [] t = (t = [])"
| "str_includes (x # xs) t = (prefix t (x # xs) \<or> str_includes xs t)"

text \<open>\<^verbatim>\<open>s.indexOf(t)\<close>: the first position where \<open>t\<close> occurs, \<open>None\<close> for \<^verbatim>\<open>-1\<close>.\<close>

fun indexOf :: "string \<Rightarrow> string \<Rightarrow> nat option" where
  "indexOf [] t = (if t = [] then Some 0 else None)"
| "indexOf (x # xs) t = (if prefix t (x # xs) then Some 0 else map_option Suc (indexOf xs t))"

text \<open>\<^verbatim>\<open>xs.slice(a, b)\<close> on non-negative indices, and \<^verbatim>\<open>xs.join(sep)\<close>.\<close>

definition slice :: "'a list \<Rightarrow> nat \<Rightarrow> nat \<Rightarrow> 'a list" where
  "slice xs a b = take (b - a) (drop a xs)"

fun join_with :: "string \<Rightarrow> string list \<Rightarrow> string" where
  "join_with s [] = []"
| "join_with s [x] = x"
| "join_with s (x # y # ys) = x @ s @ join_with s (y # ys)"

text \<open>\<^verbatim>\<open>s.split(c)\<close> for a one-character separator: never the empty list.\<close>

fun split_on :: "char \<Rightarrow> string \<Rightarrow> string list" where
  "split_on c [] = [[]]"
| "split_on c (x # xs) =
     (if x = c then [] # split_on c xs
      else (case split_on c xs of [] \<Rightarrow> [[x]] | y # ys \<Rightarrow> (x # y) # ys))"

text \<open>\<^verbatim>\<open>raw.split(/\r?\n/)\<close>: a line ends at LF, and one CR right before it goes with it.\<close>

fun split_lines :: "string \<Rightarrow> string list" where
  "split_lines [] = [[]]"
| "split_lines [x] = (if x = LF then [[], []] else [[x]])"
| "split_lines (x # y # zs) =
     (if x = LF then [] # split_lines (y # zs)
      else if x = CR \<and> y = LF then [] # split_lines zs
      else (case split_lines (y # zs) of [] \<Rightarrow> [[x]] | l # ls \<Rightarrow> (x # l) # ls))"

text \<open>\<^verbatim>\<open>s.replace(/\r\n/g, "\n")\<close>.\<close>

fun replace_crlf :: "string \<Rightarrow> string" where
  "replace_crlf (x # y # zs) =
     (if x = CR \<and> y = LF then LF # replace_crlf zs else x # replace_crlf (y # zs))"
| "replace_crlf xs = xs"

text \<open>
  \<^verbatim>\<open>s.split(t)\<close> for a literal separator \<open>t\<close> of several characters (the regular expression
  \<^verbatim>\<open>/\n\.\.\.\n/\<close> of the line-replace handler is such a literal).
\<close>

function split_str :: "string \<Rightarrow> string \<Rightarrow> string list" where
  "split_str t s =
     (if t = [] then map (\<lambda>c. [c]) s
      else (case indexOf s t of
              None \<Rightarrow> [s]
            | Some i \<Rightarrow> take i s # split_str t (drop (i + length t) s)))"
  by pat_completeness auto

lemma indexOf_Some_nonempty: "indexOf s t = Some i \<Longrightarrow> t \<noteq> [] \<Longrightarrow> s \<noteq> []"
  by (cases s) (auto split: if_splits)

termination split_str
proof (relation "measure (\<lambda>(t, s). length s)")
  show "wf (measure (\<lambda>(t, s). length s))" by simp
next
  fix t s :: string and i :: nat
  assume "t \<noteq> []" and "indexOf s t = Some i"
  then have "s \<noteq> []" by (rule indexOf_Some_nonempty [rotated])
  with \<open>t \<noteq> []\<close> show "((t, drop (i + length t) s), (t, s)) \<in> measure (\<lambda>(t, s). length s)"
    by (cases t; cases s) auto
qed


section \<open>Paths (POSIX flavour of Node's \<^verbatim>\<open>path\<close> module)\<close>

text \<open>
  The engine calls \<^verbatim>\<open>path.join\<close>, \<^verbatim>\<open>path.resolve\<close>, \<^verbatim>\<open>path.relative\<close> and
  \<^verbatim>\<open>path.basename\<close>. They are library functions; they are written here after Node's POSIX
  implementation, with \<^verbatim>\<open>path.sep = "/"\<close>. A path is processed segment by segment:
  empty segments and \<^verbatim>\<open>.\<close> are dropped, \<^verbatim>\<open>..\<close> removes the segment before it.
\<close>

definition sep :: char where
  "sep = CHR ''/''"

definition backslash :: char where
  "backslash = CHR 0x5C"

fun norm_segs :: "bool \<Rightarrow> string list \<Rightarrow> string list \<Rightarrow> string list" where
  "norm_segs allowAboveRoot acc [] = acc"
| "norm_segs allowAboveRoot acc (s # ss) =
     (if s = [] \<or> s = ''.'' then norm_segs allowAboveRoot acc ss
      else if s = ''..'' then
        (if acc \<noteq> [] \<and> last acc \<noteq> ''..'' then norm_segs allowAboveRoot (butlast acc) ss
         else if allowAboveRoot then norm_segs allowAboveRoot (acc @ [''..'']) ss
         else norm_segs allowAboveRoot acc ss)
      else norm_segs allowAboveRoot (acc @ [s]) ss)"

definition normalizeString :: "string \<Rightarrow> bool \<Rightarrow> string" where
  "normalizeString p allowAboveRoot = join_with [sep] (norm_segs allowAboveRoot [] (split_on sep p))"

definition isAbsolute :: "string \<Rightarrow> bool" where
  "isAbsolute p = (p \<noteq> [] \<and> hd p = sep)"

definition normalize :: "string \<Rightarrow> string" where
  "normalize p =
     (if p = [] then ''.''
      else
        (let trailingSeparator = (last p = sep);
             r = normalizeString p (\<not> isAbsolute p)
         in if r = [] then (if isAbsolute p then [sep] else if trailingSeparator then ''./'' else ''.'')
            else (if isAbsolute p then [sep] else []) @ r @ (if trailingSeparator then [sep] else [])))"

text \<open>\<^verbatim>\<open>path.join(...args)\<close>: the non-empty arguments joined by the separator, then normalized.\<close>

definition path_join :: "string list \<Rightarrow> string" where
  "path_join args =
     (let joined = join_with [sep] (filter (\<lambda>a. a \<noteq> []) args)
      in if joined = [] then ''.'' else normalize joined)"

text \<open>
  The environment of the process: its working directory (which \<^verbatim>\<open>path.resolve\<close> consults
  for a relative argument only) and the constant \<^verbatim>\<open>WORKSPACE\<close>, which the source computes once
  from the directory of the script.
\<close>

record env =
  cwd :: string
  WORKSPACE :: string

definition resolve_segs :: "env \<Rightarrow> string \<Rightarrow> string list" where
  "resolve_segs e p =
     norm_segs False [] (split_on sep (if isAbsolute p then p else cwd e @ [sep] @ p))"

definition resolve :: "env \<Rightarrow> string \<Rightarrow> string" where
  "resolve e p = sep # join_with [sep] (resolve_segs e p)"

text \<open>
  \<^verbatim>\<open>path.relative(from, to)\<close>: both are resolved; one \<^verbatim>\<open>..\<close> for every segment of \<open>from\<close>
  past the common leading segments, then the remaining segments of \<open>to\<close>.
\<close>

definition relative :: "env \<Rightarrow> string \<Rightarrow> string \<Rightarrow> string" where
  "relative e from to =
     (let fs = resolve_segs e from; ts = resolve_segs e to;
          k = length (longest_common_prefix fs ts)
      in join_with [sep] (replicate (length fs - k) ''..'' @ drop k ts))"

text \<open>\<^verbatim>\<open>path.basename(p)\<close>: the last non-empty segment.\<close>

definition basename :: "string \<Rightarrow> string" where
  "basename p =
     (let segs = filter (\<lambda>s. s \<noteq> []) (split_on sep p)
      in if segs = [] then [] else last segs)"


section \<open>The path guard\<close>

definition isPathInside :: "env \<Rightarrow> string \<Rightarrow> string \<Rightarrow> bool" where
  "isPathInside e childPath parentPath =
     (let resolvedChild = resolve e childPath @ [sep];
          resolvedParent = resolve e parentPath @ [sep]
      in startsWith resolvedChild resolvedParent)"

text \<open>A thrown \<^verbatim>\<open>Error(message)\<close> is \<open>Inl message\<close>.\<close>

definition safeJoin :: "env \<Rightarrow> string \<Rightarrow> string list \<Rightarrow> string + string" where
  "safeJoin e base segments =
     (if list_ex (\<lambda>seg. str_includes seg ''..'') segments then Inl ''Path traversal blocked''
      else
        (let joined = path_join (base # segments)
         in if \<not> isPathInside e joined base then Inl ''Path escapes workspace''
            else Inr joined))"

text \<open>
  \<^verbatim>\<open>normalizeWorkspaceRel\<close>: leading slashes and backslashes go, backslashes become slashes, and
  a leading \<^verbatim>\<open>workspace/\<close> (compared in lower case, ASCII letters here) is cut off.
\<close>

definition toLowerCase :: "string \<Rightarrow> string" where
  "toLowerCase s =
     map (\<lambda>c. let n = (of_char c :: nat) in if 65 \<le> n \<and> n \<le> 90 then char_of (n + 32) else c) s"

definition normalizeWorkspaceRel :: "string \<Rightarrow> string" where
  "normalizeWorkspaceRel p =
     (let rel = map (\<lambda>c. if c = backslash then sep else c)
                  (dropWhile (\<lambda>c. c = backslash \<or> c = sep) p)
      in if startsWith (toLowerCase rel) ''workspace/'' then drop (length ''workspace/'') rel
         else rel)"

definition isForbiddenPath :: "env \<Rightarrow> string \<Rightarrow> string option" where
  "isForbiddenPath e absPath =
     (let rel = relative e (WORKSPACE e) absPath in
      if startsWith rel ''..'' then Some ''Path escapes workspace''
      else
        (let parts = split_on sep rel in
         if ''node_modules'' \<in> set parts then Some ''Operation not allowed in node_modules''
         else if ''.git'' \<in> set parts then Some ''Operation not allowed in .git''
         else if startsWith (basename absPath) ''.env'' then Some ''Operation not allowed on .env files''
         else None))"


section \<open>Workspace files and tool results\<close>

text \<open>
  The files under the workspace: a map from absolute path to content, the text that
  \<^verbatim>\<open>readFileSync(p, "utf-8")\<close> returns (regular files; a directory is implicit in the paths
  below it). Reads and writes of this map do not fail, so the only
  exceptions a handler catches are the ones the engine throws itself.
\<close>

type_synonym fs = "string \<rightharpoonup> string"

definition existsSync :: "fs \<Rightarrow> string \<Rightarrow> bool" where
  "existsSync files p = (files p \<noteq> None)"

definition readFileSync :: "fs \<Rightarrow> string \<Rightarrow> string" where
  "readFileSync files p = (case files p of Some c \<Rightarrow> c | None \<Rightarrow> [])"

definition writeFileSync :: "fs \<Rightarrow> string \<Rightarrow> string \<Rightarrow> fs" where
  "writeFileSync files p c = files(p \<mapsto> c)"

definition copyFileSync :: "fs \<Rightarrow> string \<Rightarrow> string \<Rightarrow> fs" where
  "copyFileSync files src dst = (case files src of Some c \<Rightarrow> files(dst \<mapsto> c) | None \<Rightarrow> files)"


text \<open>
  The JSON objects the mutating tools return, by their \<^verbatim>\<open>status\<close>: \<^verbatim>\<open>{status: "ok", file,
  start, end}\<close>, \<^verbatim>\<open>{status: "ok", file, note}\<close>, \<^verbatim>\<open>{status: "error", file, note}\<close>,
  \<^verbatim>\<open>{status: "not_enabled", tool}\<close>, and the two answers of delete, whose note quotes the size
  of the file in bytes.
\<close>

datatype result =
    Ok_range string int int
  | Ok_note string string
  | Error string string
  | Not_enabled string
  | Confirm_required string nat
  | Confirm string nat

text \<open>A JavaScript number that is an integer, or \<^verbatim>\<open>NaN\<close> (what \<^verbatim>\<open>Number(x)\<close> gives for a non-number).\<close>

datatype jsnum = NaN | Num int

fun js_max :: "jsnum \<Rightarrow> jsnum \<Rightarrow> jsnum" where
  "js_max (Num a) (Num b) = Num (max a b)"
| "js_max _ _ = NaN"

section \<open>Line replace\<close>

definition ellipsisToken :: string where
  "ellipsisToken = [LF] @ ''...'' @ [LF]"

text \<open>
  The validation of the search template against the target block (the \<^verbatim>\<open>if\<close> cascade of lines
  488 to 512): \<open>None\<close> when the edit may proceed, otherwise the note of the error result.
\<close>

definition check_search :: "string \<Rightarrow> string \<Rightarrow> string option" where
  "check_search targetBlock searchNorm =
     (if str_includes searchNorm ''...'' then
        (case indexOf searchNorm ellipsisToken of
           None \<Rightarrow>
             (let parts = split_str ellipsisToken searchNorm in
              if length parts \<noteq> 2 then Some ''Ellipsis must be on its own line''
              else
                (let prefix = parts ! 0; suffix = parts ! 1 in
                 if \<not> startsWith targetBlock prefix \<or> \<not> endsWith targetBlock suffix
                 then Some ''Prefix/suffix do not match target lines''
                 else None))
         | Some idx \<Rightarrow>
             (let prefix = take idx searchNorm;
                  suffix = drop (idx + length ellipsisToken) searchNorm in
              if \<not> startsWith targetBlock prefix \<or> \<not> endsWith targetBlock suffix
              then Some ''Prefix/suffix do not match target lines''
              else None))
      else if targetBlock \<noteq> searchNorm then Some ''Search content mismatch in specified range''
      else None)"

definition target_block :: "string list \<Rightarrow> int \<Rightarrow> int \<Rightarrow> string" where
  "target_block lines start endL =
     join_with [LF] (slice lines (nat (start - 1)) (nat (min endL (int (length lines)))))"

definition lov_line_replace ::
  "env \<Rightarrow> fs \<Rightarrow> string \<Rightarrow> string \<Rightarrow> jsnum \<Rightarrow> jsnum \<Rightarrow> string \<Rightarrow> result \<times> fs" where
  "lov_line_replace e files file_path search first_replaced_line last_replaced_line replace =
     (let rel = normalizeWorkspaceRel file_path in
      case safeJoin e (WORKSPACE e) [rel] of
        Inl message \<Rightarrow> (Error rel message, files)
      | Inr abs_path \<Rightarrow>
          (case isForbiddenPath e abs_path of
             Some forbidden \<Rightarrow> (Error rel forbidden, files)
           | None \<Rightarrow>
               if \<not> existsSync files abs_path then
                 (Error rel ''File not found. Use paths relative to workspace root, e.g. 'src/App.tsx' (no 'workspace/' prefix).'', files)
               else
                 (let raw = readFileSync files abs_path;
                      lines = split_lines raw;
                      start = js_max (Num 1) first_replaced_line;
                      endL = js_max start last_replaced_line
                  in case (start, endL) of
                       (Num s, Num en) \<Rightarrow>
                         if s > int (length lines) then (Error rel ''Start line beyond EOF'', files)
                         else
                           (case check_search (target_block lines s en) (replace_crlf search) of
                              Some note \<Rightarrow> (Error rel note, files)
                            | None \<Rightarrow>
                                (let files1 = copyFileSync files abs_path (abs_path @ ''.bak'');
                                     replaceLines = split_on LF (replace_crlf replace);
                                     newLines = slice lines 0 (nat (s - 1)) @ replaceLines
                                                  @ drop (nat en) lines;
                                     files2 = writeFileSync files1 abs_path (join_with [LF] newLines);
                                     newEnd = (s - 1) + int (length replaceLines)
                                 in (Ok_range rel s newEnd, files2)))
                     | _ \<Rightarrow> (Error rel ''Invalid line numbers'', files))))"


section \<open>Whole-file write\<close>

text \<open>
  The loop that counts differing lines: position by position up to the longer of the two line
  lists, a missing line read as the empty string (\<^verbatim>\<open>prevLines[i] ?? ""\<close>), left as soon as the
  count passes 400.
\<close>

fun count_changed :: "string list \<Rightarrow> string list \<Rightarrow> nat \<Rightarrow> nat" where
  "count_changed [] [] changed = changed"
| "count_changed (a # prevLines) [] changed =
     (let changed' = (if a \<noteq> [] then changed + 1 else changed)
      in if changed' > 400 then changed' else count_changed prevLines [] changed')"
| "count_changed [] (b # newLines) changed =
     (let changed' = (if [] \<noteq> b then changed + 1 else changed)
      in if changed' > 400 then changed' else count_changed [] newLines changed')"
| "count_changed (a # prevLines) (b # newLines) changed =
     (let changed' = (if a \<noteq> b then changed + 1 else changed)
      in if changed' > 400 then changed' else count_changed prevLines newLines changed')"

text \<open>
  \<^verbatim>\<open>Buffer.byteLength(content, "utf-8")\<close> is the length of the byte list. For a new file the
  source first creates the parent directories; directories are implicit in the file map.
\<close>

definition lov_write :: "env \<Rightarrow> fs \<Rightarrow> string \<Rightarrow> string \<Rightarrow> result \<times> fs" where
  "lov_write e files file_path content =
     (let rel = normalizeWorkspaceRel file_path in
      if length content > 200 * 1024 then
        (Error rel ''Content exceeds 200KB; use lov-line-replace'', files)
      else
        (case safeJoin e (WORKSPACE e) [rel] of
           Inl message \<Rightarrow> (Error rel message, files)
         | Inr abs_path \<Rightarrow>
             (case isForbiddenPath e abs_path of
                Some forbidden \<Rightarrow> (Error rel forbidden, files)
              | None \<Rightarrow>
                  if existsSync files abs_path then
                    (let prev = readFileSync files abs_path;
                         prevLines = split_lines prev;
                         newLines = split_on LF (replace_crlf content);
                         changed = count_changed prevLines newLines 0
                     in if changed > 400 then
                          (Error rel ''Change exceeds 400 lines; use lov-line-replace'', files)
                        else
                          (let files1 = copyFileSync files abs_path (abs_path @ ''.bak'');
                               files2 = writeFileSync files1 abs_path (join_with [LF] newLines)
                           in (Ok_note rel ''Overwritten with small changes'', files2)))
                  else
                    (Ok_note rel ''File created'',
                     writeFileSync files abs_path (replace_crlf content)))))"

text \<open>
  The comparison in the words of the specification: the number of positions, up to the longer of
  the two line lists, at which the lines differ (a missing line counts as empty).
\<close>

fun differing_lines :: "string list \<Rightarrow> string list \<Rightarrow> nat" where
  "differing_lines [] [] = 0"
| "differing_lines (a # prevLines) [] = (if a \<noteq> [] then 1 else 0) + differing_lines prevLines []"
| "differing_lines [] (b # newLines) = (if [] \<noteq> b then 1 else 0) + differing_lines [] newLines"
| "differing_lines (a # prevLines) (b # newLines) =
     (if a \<noteq> b then 1 else 0) + differing_lines prevLines newLines"

section \<open>Rename\<close>


section \<open>Delete\<close>




section \<open>View\<close>
















section \<open>Search: globs\<close>

text \<open>
  \<^verbatim>\<open>s.replace(/p/g, rep)\<close> for a literal, non-empty pattern \<open>p\<close>: the occurrences are replaced
  from left to right, and replaced text is not scanned again.
\<close>

function replace_all :: "string \<Rightarrow> string \<Rightarrow> string \<Rightarrow> string" where
  "replace_all pat rep [] = []"
| "replace_all pat rep (x # xs) =
     (if pat \<noteq> [] \<and> prefix pat (x # xs)
      then rep @ replace_all pat rep (drop (length pat) (x # xs))
      else x # replace_all pat rep xs)"
  by pat_completeness auto
termination
  by (relation "measure (\<lambda>(pat, rep, s). length s)") (auto simp: neq_Nil_conv)

text \<open>
  \<^verbatim>\<open>glob.replace(/[.+^${}()|\[\]\\]/g, "\\$&")\<close>: a backslash before each of these characters.
\<close>

definition regex_special :: string where
  "regex_special = ''.+^${}()|[]'' @ [backslash]"

definition escape_regex :: "string \<Rightarrow> string" where
  "escape_regex s = concat (map (\<lambda>c. if c \<in> set regex_special then [backslash, c] else [c]) s)"

text \<open>\<^verbatim>\<open>globToRegExp\<close>: the source text of the regular expression it builds.\<close>

definition globToRegExp :: "string \<Rightarrow> string" where
  "globToRegExp glob =
     (let escaped =
            replace_all ''?'' ''.''
              (replace_all ''*'' ''[^/]*''
                 (replace_all ''**'' ''.*''
                    (replace_all ''**/'' ''(?:.*?/)?'' (escape_regex glob))))
      in ''^'' @ escaped @ ''$'')"

text \<open>
  The regular expressions that \<^const>\<open>globToRegExp\<close> can produce, read as JavaScript reads them. After
  the last replacement no \<^verbatim>\<open>?\<close> is left and every \<^verbatim>\<open>*\<close> belongs to a \<^verbatim>\<open>[^/]*\<close>, so between the
  anchors there are only: a backslash with the character it escapes, \<^verbatim>\<open>[^/]*\<close>, the dot (any
  character but a line terminator), parentheses of a group without quantifier (which match as
  their content does), and plain characters.
\<close>

datatype atom = Lit char | Any | NotSlashStar

function parse_atoms :: "string \<Rightarrow> atom list option" where
  "parse_atoms [] = Some []"
| "parse_atoms (c # rest) =
     (if c = backslash then
        (case rest of
           [] \<Rightarrow> None
         | d # rest' \<Rightarrow>
             if d \<in> set regex_special then map_option (\<lambda>as. Lit d # as) (parse_atoms rest')
             else None)
      else if prefix ''[^/]*'' (c # rest) then
        map_option (\<lambda>as. NotSlashStar # as) (parse_atoms (drop 5 (c # rest)))
      else if c = CHR ''.'' then map_option (\<lambda>as. Any # as) (parse_atoms rest)
      else if c = CHR ''('' \<or> c = CHR '')'' then parse_atoms rest
      else if c \<in> set ''*?+^${}|[]'' then None
      else map_option (\<lambda>as. Lit c # as) (parse_atoms rest))"
  by pat_completeness auto
termination
  by (relation "measure length") auto

definition line_terminator :: "char \<Rightarrow> bool" where
  "line_terminator c = (c = LF \<or> c = CR)"

fun match_atoms :: "atom list \<Rightarrow> string \<Rightarrow> bool" where
  "match_atoms [] s = (s = [])"
| "match_atoms (Lit c # as) [] = False"
| "match_atoms (Lit c # as) (x # xs) = (x = c \<and> match_atoms as xs)"
| "match_atoms (Any # as) [] = False"
| "match_atoms (Any # as) (x # xs) = (\<not> line_terminator x \<and> match_atoms as xs)"
| "match_atoms (NotSlashStar # as) [] = match_atoms as []"
| "match_atoms (NotSlashStar # as) (x # xs) =
     (match_atoms as (x # xs) \<or> (x \<noteq> sep \<and> match_atoms (NotSlashStar # as) xs))"

text \<open>
  \<^verbatim>\<open>new RegExp(src).test(s)\<close> for an anchored source \<^verbatim>\<open>^...$\<close>; \<open>None\<close> for a source outside the
  fragment above.
\<close>

definition regexp_test :: "string \<Rightarrow> string \<Rightarrow> bool option" where
  "regexp_test src s =
     (case src of
        [] \<Rightarrow> None
      | c # rest \<Rightarrow>
          if c = CHR ''^'' \<and> rest \<noteq> [] \<and> last rest = CHR ''$''
          then map_option (\<lambda>as. match_atoms as s) (parse_atoms (butlast rest))
          else None)"

section \<open>Examples used to instantiate the theorems\<close>

text \<open>
  The file of the specification's scenarios: \<^verbatim>\<open>a.txt\<close> with the five lines \<^verbatim>\<open>L1\<close> to \<^verbatim>\<open>L5\<close>, in
  a workspace at \<^verbatim>\<open>/srv/workspace\<close>.
\<close>

definition example_env :: env where
  "example_env = \<lparr>cwd = ''/srv/engine'', WORKSPACE = ''/srv/workspace''\<rparr>"

definition example_content :: string where
  "example_content = ''L1'' @ [LF] @ ''L2'' @ [LF] @ ''L3'' @ [LF] @ ''L4'' @ [LF] @ ''L5''"

definition example_files :: fs where
  "example_files = [''/srv/workspace/a.txt'' \<mapsto> example_content]"

text \<open>
  A segment of a resolved path: not empty, not \<^verbatim>\<open>.\<close> or \<^verbatim>\<open>..\<close>, and without a separator.
\<close>

definition plain_segment :: "string \<Rightarrow> bool" where
  "plain_segment s = (s \<noteq> [] \<and> s \<noteq> ''.'' \<and> s \<noteq> ''..'' \<and> sep \<notin> set s)"

text \<open>A result with \<^verbatim>\<open>status: "ok"\<close>.\<close>

definition is_ok :: "result \<Rightarrow> bool" where
  "is_ok r = (case r of Ok_range _ _ _ \<Rightarrow> True | Ok_note _ _ \<Rightarrow> True | _ \<Rightarrow> False)"

text \<open>A result with \<^verbatim>\<open>status: "error"\<close>.\<close>

definition is_error :: "result \<Rightarrow> bool" where
  "is_error r = (case r of Error _ _ \<Rightarrow> True | _ \<Rightarrow> False)"


text \<open>A file with a line of three dots in it.\<close>

definition dotted_content :: string where
  "dotted_content = ''a'' @ [LF] @ ''b'' @ [LF] @ ''...'' @ [LF] @ ''c''"

definition dotted_files :: fs where
  "dotted_files = [''/srv/workspace/a.txt'' \<mapsto> dotted_content]"

definition two_marker_template :: string where
  "two_marker_template = ''a'' @ ellipsisToken @ ''b'' @ ellipsisToken @ ''c''"


definition many_lines :: string where
  "many_lines = concat (replicate 401 (''x'' @ [LF]))"

text \<open>A file whose only line has three dots inside it.\<close>

definition spread_files :: fs where
  "spread_files = [''/srv/workspace/a.txt'' \<mapsto> ''f(...args)'']"

section \<open>Facts about the string primitives\<close>

lemma prefix1_replace_crlf:
  "c \<noteq> CR \<Longrightarrow> c \<noteq> LF \<Longrightarrow> prefix [c] (replace_crlf w) = prefix [c] w"
  by (induction w rule: replace_crlf.induct) auto

lemma prefix2_replace_crlf:
  "c \<noteq> CR \<Longrightarrow> c \<noteq> LF \<Longrightarrow> prefix [c, c] (replace_crlf w) = prefix [c, c] w"
proof (cases w)
  case Nil
  then show ?thesis by simp
next
  case (Cons a w')
  assume "c \<noteq> CR" "c \<noteq> LF"
  with Cons show ?thesis
    using prefix1_replace_crlf [of c w'] by (cases w') auto
qed

lemma prefix3_replace_crlf:
  "c \<noteq> CR \<Longrightarrow> c \<noteq> LF \<Longrightarrow> prefix [c, c, c] (replace_crlf w) = prefix [c, c, c] w"
proof (cases w)
  case Nil
  then show ?thesis by simp
next
  case (Cons a w')
  assume "c \<noteq> CR" "c \<noteq> LF"
  with Cons show ?thesis
    using prefix2_replace_crlf [of c w'] by (cases w') auto
qed

text \<open>Normalizing line endings neither creates nor removes three dots in a row.\<close>

lemma str_includes_dots_replace_crlf:
  "str_includes (replace_crlf s) ''...'' = str_includes s ''...''"
proof (induction s rule: replace_crlf.induct)
  case (1 x y zs)
  show ?case
  proof (cases "x = CR \<and> y = LF")
    case True
    with 1 show ?thesis by (auto simp: CR_def LF_def)
  next
    case False
    have "prefix ''...'' (replace_crlf (x # y # zs)) = prefix ''...'' (x # y # zs)"
      by (rule prefix3_replace_crlf) (simp_all add: CR_def LF_def)
    with False 1 show ?thesis by auto
  qed
qed simp_all

lemma str_includes_Nil: "str_includes s []"
  by (cases s) auto

lemma str_includes_append_right: "str_includes s t \<Longrightarrow> str_includes (s @ q) t"
proof (induction s)
  case Nil
  then show ?case by (simp add: str_includes_Nil)
next
  case (Cons a s)
  from Cons.prems have "prefix t (a # s) \<or> str_includes s t" by simp
  then show ?case
  proof
    assume "prefix t (a # s)"
    then have "prefix t ((a # s) @ q)" by (rule prefix_prefix)
    then show ?thesis by simp
  next
    assume "str_includes s t"
    then show ?thesis using Cons.IH by simp
  qed
qed

lemma str_includes_append: "str_includes s t \<Longrightarrow> str_includes (p @ s @ q) t"
  by (induction p) (auto simp: str_includes_append_right)

text \<open>\<^const>\<open>indexOf\<close> finds an occurrence: the string is what precedes it, the pattern, and the rest.\<close>

lemma indexOf_Some_decomp:
  "indexOf s t = Some i \<Longrightarrow> s = take i s @ t @ drop (i + length t) s"
proof (induction s arbitrary: i)
  case Nil
  then show ?case by (auto split: if_splits)
next
  case (Cons x xs)
  show ?case
  proof (cases "prefix t (x # xs)")
    case True
    with Cons.prems have "i = 0" by simp
    with True show ?thesis by (auto simp: prefix_def)
  next
    case False
    with Cons.prems obtain j where j: "indexOf xs t = Some j" "i = Suc j" by auto
    from Cons.IH [OF j(1)] j(2) show ?thesis by simp
  qed
qed

lemma indexOf_token_includes_dots:
  assumes "indexOf s ellipsisToken = Some i"
  shows "str_includes s ''...''"
proof -
  have "str_includes ellipsisToken ''...''" by (simp add: ellipsisToken_def)
  then have "str_includes (take i s @ ellipsisToken @ drop (i + length ellipsisToken) s) ''...''"
    by (rule str_includes_append)
  with indexOf_Some_decomp [OF assms] show ?thesis by simp
qed

text \<open>The number of lines of a text is one more than the number of its LF characters.\<close>

lemma split_lines_nonempty: "split_lines s \<noteq> []"
  by (induction s rule: split_lines.induct) (auto split: list.splits)

lemma length_split_lines: "length (split_lines s) = Suc (count_list s LF)"
proof (induction s rule: split_lines.induct)
  case 1
  then show ?case by simp
next
  case (2 x)
  then show ?case by simp
next
  case (3 x y zs)
  then show ?case
    using split_lines_nonempty [of "y # zs"]
    by (auto simp: CR_def LF_def split: list.splits)
qed

lemma split_lines_no_LF: "l \<in> set (split_lines s) \<Longrightarrow> LF \<notin> set l"
proof (induction s arbitrary: l rule: split_lines.induct)
  case 1
  then show ?case by simp
next
  case (2 x)
  then show ?case by (auto split: if_splits)
next
  case (3 x y zs)
  then show ?case by (auto split: if_splits list.splits)
qed

lemma split_on_nonempty: "split_on c s \<noteq> []"
  by (induction s) (auto split: list.splits)

lemma split_on_no_sep: "l \<in> set (split_on c s) \<Longrightarrow> c \<notin> set l"
  by (induction s arbitrary: l) (auto split: if_splits list.splits)

lemma count_list_absent: "a \<notin> set xs \<Longrightarrow> count_list xs a = 0"
  by (induction xs) auto

lemma count_list_join:
  "\<forall>x\<in>set xs. LF \<notin> set x \<Longrightarrow> count_list (join_with [LF] xs) LF = length xs - 1"
  by (induction "[LF]" xs rule: join_with.induct) (auto simp: count_list_absent)

lemma length_split_lines_join:
  assumes "xs \<noteq> []" and "\<forall>x\<in>set xs. LF \<notin> set x"
  shows "length (split_lines (join_with [LF] xs)) = length xs"
  using assms by (simp add: length_split_lines count_list_join)

section \<open>Line replace: what an error and a success leave behind\<close>

lemma line_replace_error_files:
  "is_error (fst (lov_line_replace e files file_path search n1 n2 repl))
   \<Longrightarrow> snd (lov_line_replace e files file_path search n1 n2 repl) = files"
  by (auto simp: lov_line_replace_def Let_def is_error_def
      split: sum.splits option.splits jsnum.splits if_splits prod.splits)

lemma line_replace_ok_result:
  assumes "safeJoin e (WORKSPACE e) [normalizeWorkspaceRel file_path] = Inr abs_path"
    and "files abs_path = Some raw"
    and "is_ok (fst (lov_line_replace e files file_path search (Num f) (Num l) repl))"
  shows "lov_line_replace e files file_path search (Num f) (Num l) repl =
     (Ok_range (normalizeWorkspaceRel file_path) (max 1 f)
        ((max 1 f - 1) + int (length (split_on LF (replace_crlf repl)))),
      (files(abs_path @ ''.bak'' \<mapsto> raw))
        (abs_path \<mapsto> join_with [LF]
           (take (nat (max 1 f - 1)) (split_lines raw) @ split_on LF (replace_crlf repl)
             @ drop (nat (max (max 1 f) l)) (split_lines raw))))
     \<and> max 1 f \<le> int (length (split_lines raw))"
  using assms
  by (auto simp: lov_line_replace_def Let_def is_ok_def existsSync_def readFileSync_def
      copyFileSync_def writeFileSync_def slice_def
      split: option.splits if_splits)

section \<open>Line replace: verbatim templates\<close>

text \<open>
  The claim C1 as stated fails for a template with three dots inside a line. The template
  \<^verbatim>\<open>f(...args)\<close> has no line that is the marker and equals the target block (line 1 of the file)
  byte for byte, yet the call does not succeed, and the error is not the mismatch error but
  \<^verbatim>\<open>Ellipsis must be on its own line\<close>: the handler takes every template with three dots in a
  row for an ellipsis template.
\<close>

theorem line_replace_inline_dots_refused:
  "\<not> list_ex (\<lambda>l. l = ''...'') (split_on LF (replace_crlf ''f(...args)''))
   \<and> target_block (split_lines ''f(...args)'') 1 1 = replace_crlf ''f(...args)''
   \<and> fst (lov_line_replace example_env spread_files ''a.txt'' ''f(...args)''
            (Num 1) (Num 1) ''g()'')
       = Error ''a.txt'' ''Ellipsis must be on its own line''
   \<and> \<not> is_ok (fst (lov_line_replace example_env spread_files ''a.txt'' ''f(...args)''
                      (Num 1) (Num 1) ''g()''))
   \<and> snd (lov_line_replace example_env spread_files ''a.txt'' ''f(...args)''
            (Num 1) (Num 1) ''g()'') ''/srv/workspace/a.txt'' = Some ''f(...args)''"
  by code_simp

text \<open>
  Claim C1, amended. Take a path that resolves inside the workspace to an existing file that is not
  forbidden, and numeric line numbers whose clamped start \<open>s = max 1 f\<close> is not beyond the end of
  the file. If the search template contains no three dots in a row, the call succeeds exactly when the
  target block (lines \<open>s\<close> to \<open>max s l\<close>, joined with LF) equals the template with its CRLF
  replaced by LF; in every other case the result is the error
  \<^verbatim>\<open>Search content mismatch in specified range\<close> and the files are as before.
\<close>

theorem line_replace_verbatim_iff_identical:
  assumes "safeJoin e (WORKSPACE e) [normalizeWorkspaceRel file_path] = Inr abs_path"
    and "isForbiddenPath e abs_path = None"
    and "files abs_path = Some raw"
    and "s = max 1 f" and "en = max s l"
    and "s \<le> int (length (split_lines raw))"
    and "\<not> str_includes search ''...''"
  shows "(is_ok (fst (lov_line_replace e files file_path search (Num f) (Num l) repl))
            \<longleftrightarrow> target_block (split_lines raw) s en = replace_crlf search)
       \<and> (target_block (split_lines raw) s en \<noteq> replace_crlf search \<longrightarrow>
            lov_line_replace e files file_path search (Num f) (Num l) repl
              = (Error (normalizeWorkspaceRel file_path)
                   ''Search content mismatch in specified range'', files))"
proof -
  have "\<not> str_includes (replace_crlf search) ''...''"
    using assms(7) by (simp add: str_includes_dots_replace_crlf)
  with assms(1-6) show ?thesis
    by (auto simp add: lov_line_replace_def check_search_def existsSync_def readFileSync_def
        is_ok_def Let_def)
qed

lemma example_safeJoin:
  "safeJoin example_env (WORKSPACE example_env) [normalizeWorkspaceRel ''a.txt'']
     = Inr ''/srv/workspace/a.txt''"
  by code_simp

lemma example_not_forbidden: "isForbiddenPath example_env ''/srv/workspace/a.txt'' = None"
  by code_simp

lemma example_file: "example_files ''/srv/workspace/a.txt'' = Some example_content"
  by (simp add: example_files_def)

lemma example_lines: "split_lines example_content = [''L1'', ''L2'', ''L3'', ''L4'', ''L5'']"
  by code_simp

theorem line_replace_verbatim_witness:
  "\<not> str_includes ''WRONG'' ''...''
   \<and> target_block (split_lines example_content) 2 3 \<noteq> replace_crlf ''WRONG''
   \<and> lov_line_replace example_env example_files ''a.txt'' ''WRONG'' (Num 2) (Num 3) ''X''
       = (Error ''a.txt'' ''Search content mismatch in specified range'', example_files)"
proof -
  have dots: "\<not> str_includes ''WRONG'' ''...''" by code_simp
  have differs: "target_block (split_lines example_content) 2 3 \<noteq> replace_crlf ''WRONG''"
    by code_simp
  have rel: "normalizeWorkspaceRel ''a.txt'' = ''a.txt''" by code_simp
  have len: "(2::int) \<le> int (length (split_lines example_content))"
    by (simp add: example_lines)
  from line_replace_verbatim_iff_identical [where e = example_env and files = example_files
      and file_path = "''a.txt''" and abs_path = "''/srv/workspace/a.txt''"
      and raw = example_content and s = 2 and f = 2 and en = 3 and l = 3
      and search = "''WRONG''" and repl = "''X''",
      OF example_safeJoin example_not_forbidden example_file _ _ len dots] differs
  have "lov_line_replace example_env example_files ''a.txt'' ''WRONG'' (Num 2) (Num 3) ''X''
       = (Error (normalizeWorkspaceRel ''a.txt'')
            ''Search content mismatch in specified range'', example_files)"
    by simp
  with dots differs rel show ?thesis by simp
qed

section \<open>Line replace: templates with an ellipsis\<close>

text \<open>
  Claim C3, as the code has it. When the normalized template contains the token LF \<^verbatim>\<open>...\<close> LF,
  it is cut at the first occurrence of the token (position \<open>idx\<close>) into the prefix before it and
  the suffix after it; the call succeeds exactly when the target block starts with that prefix
  and ends with that suffix, and otherwise returns the error
  \<^verbatim>\<open>Prefix/suffix do not match target lines\<close> with the files as before. A second token is not an
  error: it is part of the suffix and is compared literally.
\<close>

theorem line_replace_ellipsis_first_token:
  assumes "safeJoin e (WORKSPACE e) [normalizeWorkspaceRel file_path] = Inr abs_path"
    and "isForbiddenPath e abs_path = None"
    and "files abs_path = Some raw"
    and "s = max 1 f" and "en = max s l"
    and "s \<le> int (length (split_lines raw))"
    and "indexOf (replace_crlf search) ellipsisToken = Some idx"
    and "pre = take idx (replace_crlf search)"
    and "suf = drop (idx + length ellipsisToken) (replace_crlf search)"
  shows "replace_crlf search = pre @ ellipsisToken @ suf
       \<and> (is_ok (fst (lov_line_replace e files file_path search (Num f) (Num l) repl))
            \<longleftrightarrow> startsWith (target_block (split_lines raw) s en) pre
               \<and> endsWith (target_block (split_lines raw) s en) suf)
       \<and> (is_ok (fst (lov_line_replace e files file_path search (Num f) (Num l) repl))
          \<or> lov_line_replace e files file_path search (Num f) (Num l) repl
              = (Error (normalizeWorkspaceRel file_path)
                   ''Prefix/suffix do not match target lines'', files))"
proof -
  have dots: "str_includes (replace_crlf search) ''...''"
    using assms(7) by (rule indexOf_token_includes_dots)
  have split: "replace_crlf search = pre @ ellipsisToken @ suf"
    using indexOf_Some_decomp [OF assms(7)] assms(8,9) by simp
  from dots assms have
    "(is_ok (fst (lov_line_replace e files file_path search (Num f) (Num l) repl))
        \<longleftrightarrow> startsWith (target_block (split_lines raw) s en) pre
           \<and> endsWith (target_block (split_lines raw) s en) suf)
     \<and> (is_ok (fst (lov_line_replace e files file_path search (Num f) (Num l) repl))
        \<or> lov_line_replace e files file_path search (Num f) (Num l) repl
            = (Error (normalizeWorkspaceRel file_path)
                 ''Prefix/suffix do not match target lines'', files))"
    by (auto simp add: lov_line_replace_def check_search_def existsSync_def readFileSync_def
        is_ok_def Let_def)
  with split show ?thesis by auto
qed

text \<open>
  The second scenario of the specification: \<^verbatim>\<open>L2\<close>, the marker, \<^verbatim>\<open>L3\<close> against lines 2 to 3,
  with nothing between prefix and suffix.
\<close>

theorem line_replace_ellipsis_first_token_witness:
  "indexOf (replace_crlf (''L2'' @ ellipsisToken @ ''L3'')) ellipsisToken = Some 2
   \<and> startsWith (target_block (split_lines example_content) 2 3) ''L2''
   \<and> endsWith (target_block (split_lines example_content) 2 3) ''L3''
   \<and> is_ok (fst (lov_line_replace example_env example_files ''a.txt''
                   (''L2'' @ ellipsisToken @ ''L3'') (Num 2) (Num 3) ''X''))"
proof -
  let ?search = "''L2'' @ ellipsisToken @ ''L3''"
  have idx: "indexOf (replace_crlf ?search) ellipsisToken = Some 2" by code_simp
  have len: "(2::int) \<le> int (length (split_lines example_content))"
    by (simp add: example_lines)
  have pre: "take 2 (replace_crlf ?search) = ''L2''" by code_simp
  have suf: "drop (2 + length ellipsisToken) (replace_crlf ?search) = ''L3''" by code_simp
  have starts: "startsWith (target_block (split_lines example_content) 2 3) ''L2''"
    by code_simp
  have ends: "endsWith (target_block (split_lines example_content) 2 3) ''L3''"
    by code_simp
  from line_replace_ellipsis_first_token [where e = example_env and files = example_files
      and file_path = "''a.txt''" and abs_path = "''/srv/workspace/a.txt''"
      and raw = example_content and s = 2 and f = 2 and en = 3 and l = 3
      and search = ?search and repl = "''X''" and idx = 2 and pre = "''L2''" and suf = "''L3''",
      OF example_safeJoin example_not_forbidden example_file _ _ len idx]
    pre suf starts ends
  have "is_ok (fst (lov_line_replace example_env example_files ''a.txt'' ?search
                      (Num 2) (Num 3) ''X''))"
    by simp
  with idx starts ends show ?thesis by simp
qed

text \<open>
  Against claim C3 as stated, a template with two markers is accepted: against the file \<^verbatim>\<open>a\<close>, \<^verbatim>\<open>b\<close>, \<^verbatim>\<open>...\<close>, \<^verbatim>\<open>c\<close> the
  template \<^verbatim>\<open>a\<close>, marker, \<^verbatim>\<open>b\<close>, marker, \<^verbatim>\<open>c\<close> replaces lines 1 to 4.
\<close>

theorem line_replace_two_markers_accepted:
  "indexOf two_marker_template ellipsisToken = Some 1
   \<and> indexOf (drop (1 + length ellipsisToken) two_marker_template) ellipsisToken = Some 1
   \<and> fst (lov_line_replace example_env dotted_files ''a.txt'' two_marker_template
            (Num 1) (Num 4) ''X'') = Ok_range ''a.txt'' 1 1
   \<and> snd (lov_line_replace example_env dotted_files ''a.txt'' two_marker_template
            (Num 1) (Num 4) ''X'') ''/srv/workspace/a.txt'' = Some ''X''"
  by code_simp

text \<open>
  Claim C4, at a template whose marker is its first line. The target block (lines 1 to 3) starts
  with the empty prefix and ends with the suffix \<^verbatim>\<open>L3\<close>, yet the call is refused with
  \<^verbatim>\<open>Ellipsis must be on its own line\<close>: the fallback of the handler splits at the same token
  LF \<^verbatim>\<open>...\<close> LF that was just not found.
\<close>

theorem line_replace_marker_on_first_line_refused:
  "startsWith (target_block (split_lines example_content) 1 3) []
   \<and> endsWith (target_block (split_lines example_content) 1 3) ''L3''
   \<and> lov_line_replace example_env example_files ''a.txt'' (''...'' @ [LF] @ ''L3'')
        (Num 1) (Num 3) ''X''
      = (Error ''a.txt'' ''Ellipsis must be on its own line'', example_files)"
proof -
  let ?call = "lov_line_replace example_env example_files ''a.txt'' (''...'' @ [LF] @ ''L3'')
        (Num 1) (Num 3) ''X''"
  have res: "fst ?call = Error ''a.txt'' ''Ellipsis must be on its own line''" by code_simp
  then have "is_error (fst ?call)" by (simp add: is_error_def)
  then have "snd ?call = example_files" by (rule line_replace_error_files)
  with res have "?call = (Error ''a.txt'' ''Ellipsis must be on its own line'', example_files)"
    by (simp add: prod_eq_iff)
  moreover have "startsWith (target_block (split_lines example_content) 1 3) []"
    by code_simp
  moreover have "endsWith (target_block (split_lines example_content) 1 3) ''L3''"
    by code_simp
  ultimately show ?thesis by simp
qed

section \<open>Line replace: three dots without the token\<close>

lemma split_str_without_occurrence:
  "t \<noteq> [] \<Longrightarrow> indexOf s t = None \<Longrightarrow> split_str t s = [s]"
  by (subst split_str.simps) simp

text \<open>
  The fallback of the handler never accepts a template. When the normalized template contains
  three dots but not the token LF \<^verbatim>\<open>...\<close> LF, splitting it at the token gives one part, so the
  call ends with \<^verbatim>\<open>Ellipsis must be on its own line\<close>, whatever the target block is: also for a
  marker on the first or last line of the template, and for a template that quotes the target
  lines exactly and has three dots inside a line.
\<close>

theorem line_replace_dots_without_token_refused:
  assumes "safeJoin e (WORKSPACE e) [normalizeWorkspaceRel file_path] = Inr abs_path"
    and "isForbiddenPath e abs_path = None"
    and "files abs_path = Some raw"
    and "max 1 f \<le> int (length (split_lines raw))"
    and "str_includes search ''...''"
    and "indexOf (replace_crlf search) ellipsisToken = None"
  shows "lov_line_replace e files file_path search (Num f) (Num l) repl
           = (Error (normalizeWorkspaceRel file_path) ''Ellipsis must be on its own line'', files)"
proof -
  have dots: "str_includes (replace_crlf search) ''...''"
    using assms(5) by (simp add: str_includes_dots_replace_crlf)
  have "ellipsisToken \<noteq> []" by (simp add: ellipsisToken_def)
  then have "split_str ellipsisToken (replace_crlf search) = [replace_crlf search]"
    using assms(6) by (rule split_str_without_occurrence)
  with dots assms(1-4,6) show ?thesis
    by (auto simp add: lov_line_replace_def check_search_def existsSync_def readFileSync_def Let_def
        simp del: split_str.simps)
qed

theorem line_replace_dots_without_token_witness:
  "target_block (split_lines ''f(...args)'') 1 1 = replace_crlf ''f(...args)''
   \<and> lov_line_replace example_env spread_files ''a.txt'' ''f(...args)'' (Num 1) (Num 1) ''g()''
       = (Error ''a.txt'' ''Ellipsis must be on its own line'', spread_files)"
proof -
  have fl: "spread_files ''/srv/workspace/a.txt'' = Some ''f(...args)''"
    by (simp add: spread_files_def)
  have len: "max 1 1 \<le> int (length (split_lines ''f(...args)''))" by code_simp
  have dots: "str_includes ''f(...args)'' ''...''" by code_simp
  have none: "indexOf (replace_crlf ''f(...args)'') ellipsisToken = None" by code_simp
  have same: "target_block (split_lines ''f(...args)'') 1 1 = replace_crlf ''f(...args)''"
    by code_simp
  have rel: "normalizeWorkspaceRel ''a.txt'' = ''a.txt''" by code_simp
  from line_replace_dots_without_token_refused [where e = example_env and files = spread_files
      and file_path = "''a.txt''" and abs_path = "''/srv/workspace/a.txt''"
      and raw = "''f(...args)''" and f = 1 and l = 1 and search = "''f(...args)''"
      and repl = "''g()''",
      OF example_safeJoin example_not_forbidden fl len dots none]
  show ?thesis using same by (simp add: rel)
qed

section \<open>Line replace: no partial edits\<close>

text \<open>
  Claim C5. Whatever the arguments, when line replace returns an error result the files are the
  ones it was given: every check comes before the backup and the write.
\<close>

theorem line_replace_error_no_mutation:
  "is_error (fst (lov_line_replace e files file_path search n1 n2 repl))
   \<Longrightarrow> snd (lov_line_replace e files file_path search n1 n2 repl) = files
       \<and> snd (lov_line_replace e files file_path search n1 n2 repl) p = files p"
  by (simp add: line_replace_error_files)

theorem line_replace_error_no_mutation_witness:
  "is_error (fst (lov_line_replace example_env example_files ''a.txt'' ''WRONG''
                    (Num 2) (Num 3) ''X''))
   \<and> snd (lov_line_replace example_env example_files ''a.txt'' ''WRONG'' (Num 2) (Num 3) ''X'')
         ''/srv/workspace/a.txt'' = Some example_content"
proof -
  have err: "is_error (fst (lov_line_replace example_env example_files ''a.txt'' ''WRONG''
                    (Num 2) (Num 3) ''X''))"
    by code_simp
  from line_replace_error_no_mutation [OF err, of "''/srv/workspace/a.txt''"] err
  show ?thesis by (simp add: example_file)
qed

section \<open>Line replace: line count and reported end\<close>

text \<open>
  The claim C6 as stated fails when the last line lies beyond the end of the file: lines 2 to 10
  of the five-line file are replaced by one line, the file then has 2 lines, not
  \<open>5 + 1 - (10 - 2 + 1)\<close>.
\<close>

theorem line_replace_count_past_eof:
  "length (split_lines example_content) = 5
   \<and> length (split_on LF (replace_crlf ''X'')) = 1
   \<and> fst (lov_line_replace example_env example_files ''a.txt''
            (''L2'' @ [LF] @ ''L3'' @ [LF] @ ''L4'' @ [LF] @ ''L5'') (Num 2) (Num 10) ''X'')
       = Ok_range ''a.txt'' 2 2
   \<and> int (length (split_lines (readFileSync
        (snd (lov_line_replace example_env example_files ''a.txt''
               (''L2'' @ [LF] @ ''L3'' @ [LF] @ ''L4'' @ [LF] @ ''L5'') (Num 2) (Num 10) ''X''))
        ''/srv/workspace/a.txt''))) = 2
   \<and> (2::int) \<noteq> 5 + 1 - (10 - 2 + 1)"
  by code_simp

text \<open>
  Claim C6, amended. With the line numbers clamped as the handler clamps them
  (\<open>s = max 1 f\<close>, \<open>en = max s l\<close>, and the end of the block at most the length \<open>L\<close> of the file),
  a successful call leaves a file of \<open>L + R - (min en L - s + 1)\<close> lines, where \<open>R\<close> is the number
  of replacement lines, and reports the end line \<open>s - 1 + R\<close>. For \<open>1 \<le> f \<le> l \<le> L\<close> this is the
  formula of the claim.
\<close>

theorem line_replace_line_count:
  assumes "safeJoin e (WORKSPACE e) [normalizeWorkspaceRel file_path] = Inr abs_path"
    and "files abs_path = Some raw"
    and "is_ok (fst (lov_line_replace e files file_path search (Num f) (Num l) repl))"
    and "s = max 1 f" and "en = max s l"
    and "L = int (length (split_lines raw))"
    and "R = int (length (split_on LF (replace_crlf repl)))"
  shows "int (length (split_lines
            (readFileSync (snd (lov_line_replace e files file_path search (Num f) (Num l) repl))
               abs_path)))
          = L + R - (min en L - s + 1)
       \<and> fst (lov_line_replace e files file_path search (Num f) (Num l) repl)
          = Ok_range (normalizeWorkspaceRel file_path) s (s - 1 + R)"
proof -
  let ?lines = "split_lines raw"
  let ?rl = "split_on LF (replace_crlf repl)"
  let ?new = "take (nat (s - 1)) ?lines @ ?rl @ drop (nat en) ?lines"
  from line_replace_ok_result [OF assms(1-3)] assms(4,5)
  have res: "lov_line_replace e files file_path search (Num f) (Num l) repl =
     (Ok_range (normalizeWorkspaceRel file_path) s ((s - 1) + int (length ?rl)),
      (files(abs_path @ ''.bak'' \<mapsto> raw))(abs_path \<mapsto> join_with [LF] ?new))"
    and le: "s \<le> int (length ?lines)"
    by simp_all
  have ne: "?new \<noteq> []" using split_on_nonempty by simp
  have noLF: "\<forall>x\<in>set ?new. LF \<notin> set x"
    using split_lines_no_LF split_on_no_sep by (auto dest!: in_set_takeD in_set_dropD)
  have "length (split_lines (join_with [LF] ?new)) = length ?new"
    using ne noLF by (rule length_split_lines_join)
  moreover have "int (length ?new) = L + R - (min en L - s + 1)"
    using le assms(4-7) by (auto simp: min_def)
  ultimately show ?thesis using res assms(7) by (simp add: readFileSync_def)
qed

text \<open>The first scenario of the specification: lines 2 to 3 replaced by one line.\<close>

theorem line_replace_line_count_witness:
  "is_ok (fst (lov_line_replace example_env example_files ''a.txt'' (''L2'' @ [LF] @ ''L3'')
                 (Num 2) (Num 3) ''X''))
   \<and> int (length (split_lines (readFileSync
        (snd (lov_line_replace example_env example_files ''a.txt'' (''L2'' @ [LF] @ ''L3'')
               (Num 2) (Num 3) ''X'')) ''/srv/workspace/a.txt''))) = 5 + 1 - (3 - 2 + 1)
   \<and> fst (lov_line_replace example_env example_files ''a.txt'' (''L2'' @ [LF] @ ''L3'')
            (Num 2) (Num 3) ''X'') = Ok_range ''a.txt'' 2 (2 - 1 + 1)"
proof -
  let ?call = "lov_line_replace example_env example_files ''a.txt'' (''L2'' @ [LF] @ ''L3'')
                 (Num 2) (Num 3) ''X''"
  have ok: "is_ok (fst ?call)" by code_simp
  have L: "(5::int) = int (length (split_lines example_content))"
    by (simp add: example_lines)
  have R: "(1::int) = int (length (split_on LF (replace_crlf ''X'')))" by code_simp
  have rel: "normalizeWorkspaceRel ''a.txt'' = ''a.txt''" by code_simp
  have s: "(2::int) = max 1 2" and en: "(3::int) = max 2 3" by simp_all
  from line_replace_line_count [where e = example_env and files = example_files
      and file_path = "''a.txt''" and abs_path = "''/srv/workspace/a.txt''"
      and raw = example_content and s = 2 and f = 2 and en = 3 and l = 3
      and search = "''L2'' @ [LF] @ ''L3''" and repl = "''X''" and L = 5 and R = 1,
      OF example_safeJoin example_file ok s en L R]
  show ?thesis using ok by (simp add: rel)
qed


section \<open>Delete is switched off\<close>





section \<open>View reads forbidden paths\<close>




section \<open>Whole-file write: the two ceilings\<close>

lemma count_changed_over_400:
  "changed \<le> 400 \<Longrightarrow>
   (count_changed prevLines newLines changed > 400)
     = (changed + differing_lines prevLines newLines > 400)"
  by (induction prevLines newLines changed rule: count_changed.induct) (auto simp: Let_def)

text \<open>
  Claim C8. A content of more than 200 KiB (204800 bytes) is refused with the size error whatever
  the path. When the content is within that size and the path resolves to an existing file that
  is not forbidden, a comparison that finds more than 400 differing lines is refused with the
  error \<^verbatim>\<open>Change exceeds 400 lines\<close>. Both refusals return the files as they were.
\<close>

theorem write_refused_over_limits:
  "(length content > 200 * 1024 \<longrightarrow>
      lov_write e files file_path content
        = (Error (normalizeWorkspaceRel file_path)
             ''Content exceeds 200KB; use lov-line-replace'', files))
   \<and> (length content \<le> 200 * 1024
      \<and> safeJoin e (WORKSPACE e) [normalizeWorkspaceRel file_path] = Inr abs_path
      \<and> isForbiddenPath e abs_path = None
      \<and> files abs_path = Some prev
      \<and> differing_lines (split_lines prev) (split_on LF (replace_crlf content)) > 400 \<longrightarrow>
      lov_write e files file_path content
        = (Error (normalizeWorkspaceRel file_path)
             ''Change exceeds 400 lines; use lov-line-replace'', files))"
  using count_changed_over_400 [of 0 "split_lines prev" "split_on LF (replace_crlf content)"]
  by (auto simp: lov_write_def Let_def existsSync_def readFileSync_def)

lemma many_lines_differ:
  "differing_lines (split_lines example_content) (split_on LF (replace_crlf many_lines)) > 400"
  by code_simp

theorem write_refused_over_limits_witness:
  "length (replicate 512000 (CHR ''x'')) > 200 * 1024
   \<and> lov_write example_env example_files ''a.txt'' (replicate 512000 (CHR ''x''))
       = (Error ''a.txt'' ''Content exceeds 200KB; use lov-line-replace'', example_files)
   \<and> length many_lines \<le> 200 * 1024
   \<and> lov_write example_env example_files ''a.txt'' many_lines
       = (Error ''a.txt'' ''Change exceeds 400 lines; use lov-line-replace'', example_files)"
proof -
  have rel: "normalizeWorkspaceRel ''a.txt'' = ''a.txt''" by code_simp
  have big: "length (replicate 512000 (CHR ''x'')) > 200 * 1024" by simp
  have small: "length many_lines \<le> 200 * 1024"
    by (simp add: many_lines_def length_concat sum_list_replicate)
  from write_refused_over_limits [of "replicate 512000 (CHR ''x'')" example_env example_files
      "''a.txt''"] big rel
  have a: "lov_write example_env example_files ''a.txt'' (replicate 512000 (CHR ''x''))
       = (Error ''a.txt'' ''Content exceeds 200KB; use lov-line-replace'', example_files)"
    by simp
  from write_refused_over_limits [of many_lines example_env example_files "''a.txt''"
      "''/srv/workspace/a.txt''" example_content]
    small example_safeJoin example_not_forbidden example_file many_lines_differ rel
  have b: "lov_write example_env example_files ''a.txt'' many_lines
       = (Error ''a.txt'' ''Change exceeds 400 lines; use lov-line-replace'', example_files)"
    by simp
  from a b big small show ?thesis by simp
qed


section \<open>Facts about splitting, joining and normalizing paths\<close>

lemma str_includes_refl: "str_includes s s"
  by (cases s) auto

lemma str_includes_decomp: "str_includes s t \<longleftrightarrow> (\<exists>a b. s = a @ t @ b)"
proof
  assume "str_includes s t"
  then show "\<exists>a b. s = a @ t @ b"
  proof (induction s)
    case Nil
    then show ?case by simp
  next
    case (Cons x xs)
    from Cons.prems have "prefix t (x # xs) \<or> str_includes xs t" by simp
    then show ?case
    proof
      assume "prefix t (x # xs)"
      then obtain b where "x # xs = t @ b" by (auto simp: prefix_def)
      then have "x # xs = [] @ t @ b" by simp
      then show ?thesis by blast
    next
      assume "str_includes xs t"
      with Cons.IH obtain a b where "xs = a @ t @ b" by blast
      then have "x # xs = (x # a) @ t @ b" by simp
      then show ?thesis by blast
    qed
  qed
next
  assume "\<exists>a b. s = a @ t @ b"
  then obtain a b where "s = a @ t @ b" by blast
  with str_includes_append [OF str_includes_refl, of a t b] show "str_includes s t" by simp
qed

lemma str_includes_trans: "str_includes p s \<Longrightarrow> str_includes s t \<Longrightarrow> str_includes p t"
proof -
  assume "str_includes p s" and "str_includes s t"
  then obtain a b a' b' where "p = a @ s @ b" and "s = a' @ t @ b'"
    by (auto simp: str_includes_decomp)
  then have "p = (a @ a') @ t @ (b' @ b)" by simp
  then show ?thesis unfolding str_includes_decomp by blast
qed

lemma split_on_append: "split_on c (a @ c # b) = split_on c a @ split_on c b"
proof (induction a)
  case Nil
  then show ?case by simp
next
  case (Cons x a)
  then show ?case
    using split_on_nonempty [of c a] by (auto split: list.splits)
qed

lemma split_on_absent: "c \<notin> set s \<Longrightarrow> split_on c s = [s]"
  by (induction s) auto

lemma hd_split_on_prefix: "prefix (hd (split_on c xs)) xs"
  by (induction xs) (auto split: list.splits)

lemma split_on_segment_included: "s \<in> set (split_on c p) \<Longrightarrow> str_includes p s"
proof (induction p arbitrary: s)
  case Nil
  then show ?case by simp
next
  case (Cons x xs)
  show ?case
  proof (cases "x = c")
    case True
    with Cons.prems have "s = [] \<or> s \<in> set (split_on c xs)" by auto
    then show ?thesis using Cons.IH by (auto simp: str_includes_Nil)
  next
    case False
    obtain y ys where y: "split_on c xs = y # ys"
      using split_on_nonempty [of c xs] by (cases "split_on c xs") auto
    with False Cons.prems have "s = x # y \<or> s \<in> set ys" by auto
    then show ?thesis
    proof
      assume "s = x # y"
      moreover have "prefix y xs" using hd_split_on_prefix [of c xs] y by simp
      ultimately show ?thesis by simp
    next
      assume "s \<in> set ys"
      with y have "s \<in> set (split_on c xs)" by simp
      then show ?thesis using Cons.IH by simp
    qed
  qed
qed

lemma prefix_hd_split_on:
  "prefix t xs \<Longrightarrow> c \<notin> set t \<Longrightarrow> prefix t (hd (split_on c xs))"
proof (induction t arbitrary: xs)
  case Nil
  then show ?case by simp
next
  case (Cons a t)
  then obtain xs' where xs: "xs = a # xs'" and "prefix t xs'" by (auto simp: prefix_def)
  with Cons have "prefix t (hd (split_on c xs'))" by simp
  with xs Cons.prems(2) show ?case
    using split_on_nonempty [of c xs'] by (auto split: list.splits)
qed

lemma included_in_some_segment:
  "str_includes p t \<Longrightarrow> t \<noteq> [] \<Longrightarrow> c \<notin> set t
   \<Longrightarrow> \<exists>s\<in>set (split_on c p). str_includes s t"
proof (induction p)
  case Nil
  then show ?case by simp
next
  case (Cons x xs)
  obtain y ys where y: "split_on c xs = y # ys"
    using split_on_nonempty [of c xs] by (cases "split_on c xs") auto
  from Cons.prems(1) have "prefix t (x # xs) \<or> str_includes xs t" by simp
  then show ?case
  proof
    assume pre: "prefix t (x # xs)"
    with Cons.prems(2) obtain t' where t: "t = x # t'" and "prefix t' xs"
      by (cases t) auto
    with Cons.prems(3) have "prefix t' (hd (split_on c xs))" and "x \<noteq> c"
      by (auto intro: prefix_hd_split_on)
    with t y have "prefix t (x # y)" and "split_on c (x # xs) = (x # y) # ys" by auto
    then show ?thesis by auto
  next
    assume "str_includes xs t"
    with Cons obtain s where s: "s \<in> set (split_on c xs)" "str_includes s t" by blast
    show ?thesis
    proof (cases "x = c")
      case True
      with s show ?thesis by auto
    next
      case False
      from s(1) y have "s = y \<or> s \<in> set ys" by auto
      with False y s(2) show ?thesis by auto
    qed
  qed
qed

text \<open>A segment contains two dots exactly when the whole path does.\<close>

lemma segment_dots_iff:
  "list_ex (\<lambda>s. str_includes s ''..'') (split_on sep p) = str_includes p ''..''"
proof
  assume "list_ex (\<lambda>s. str_includes s ''..'') (split_on sep p)"
  then obtain s where "s \<in> set (split_on sep p)" and "str_includes s ''..''"
    by (auto simp: list_ex_iff)
  then show "str_includes p ''..''"
    by (blast intro: str_includes_trans split_on_segment_included)
next
  assume "str_includes p ''..''"
  then have "\<exists>s\<in>set (split_on sep p). str_includes s ''..''"
    by (rule included_in_some_segment) (simp_all add: sep_def)
  then show "list_ex (\<lambda>s. str_includes s ''..'') (split_on sep p)"
    by (simp add: list_ex_iff)
qed

lemma join_with_append:
  "a \<noteq> [] \<Longrightarrow> b \<noteq> [] \<Longrightarrow> join_with s (a @ b) = join_with s a @ s @ join_with s b"
proof (induction s a rule: join_with.induct)
  case (1 s)
  then show ?case by simp
next
  case (2 s x)
  then show ?case by (cases b) auto
next
  case (3 s x y ys)
  then show ?case by simp
qed

lemma split_on_join:
  "segs \<noteq> [] \<Longrightarrow> \<forall>s\<in>set segs. c \<notin> set s \<Longrightarrow> split_on c (join_with [c] segs) = segs"
proof (induction "[c]" segs rule: join_with.induct)
  case 1
  then show ?case by simp
next
  case (2 x)
  then show ?case by (simp add: split_on_absent)
next
  case (3 x y ys)
  then show ?case by (simp add: split_on_append split_on_absent)
qed

lemma norm_segs_append:
  "norm_segs al acc (xs @ ys) = norm_segs al (norm_segs al acc xs) ys"
  by (induction xs arbitrary: acc) auto

lemma norm_segs_no_dotdot:
  "\<forall>s\<in>set segs. s \<noteq> ''..''
   \<Longrightarrow> norm_segs al acc segs = acc @ filter (\<lambda>s. s \<noteq> [] \<and> s \<noteq> ''.'') segs"
  by (induction segs arbitrary: acc) auto

lemma norm_segs_plain:
  "\<forall>a\<in>set acc. plain_segment a \<Longrightarrow> \<forall>s\<in>set segs. sep \<notin> set s
   \<Longrightarrow> \<forall>r\<in>set (norm_segs False acc segs). plain_segment r"
proof (induction segs arbitrary: acc)
  case Nil
  then show ?case by simp
next
  case (Cons s segs)
  have rest: "\<forall>s\<in>set segs. sep \<notin> set s" using Cons.prems(2) by simp
  consider (skip) "s = [] \<or> s = ''.''" | (up) "s = ''..''"
    | (push) "s \<noteq> []" "s \<noteq> ''.''" "s \<noteq> ''..''"
    by blast
  then show ?case
  proof cases
    case skip
    then show ?thesis using Cons.IH [OF Cons.prems(1) rest] by auto
  next
    case up
    have "\<forall>a\<in>set (butlast acc). plain_segment a"
      using Cons.prems(1) by (auto dest: in_set_butlastD)
    from Cons.IH [OF this rest] Cons.IH [OF Cons.prems(1) rest] up show ?thesis by auto
  next
    case push
    then have "plain_segment s" using Cons.prems(2) by (simp add: plain_segment_def)
    with Cons.prems(1) have "\<forall>a\<in>set (acc @ [s]). plain_segment a" by auto
    from Cons.IH [OF this rest] push show ?thesis by auto
  qed
qed

lemma filter_plain: "\<forall>s\<in>set segs. plain_segment s \<Longrightarrow> filter (\<lambda>s. s \<noteq> [] \<and> s \<noteq> ''.'') segs = segs"
  by (induction segs) (auto simp: plain_segment_def)

text \<open>Resolving the string of a normalized absolute path gives its segments back.\<close>

lemma norm_segs_of_joined:
  assumes "\<forall>s\<in>set segs. plain_segment s" and "t = [] \<or> t = [sep]"
  shows "norm_segs False [] (split_on sep (sep # join_with [sep] segs @ t)) = segs"
proof (cases "segs = []")
  case True
  with assms(2) show ?thesis by auto
next
  case False
  have nosep: "\<forall>s\<in>set segs. sep \<notin> set s" and nodd: "\<forall>s\<in>set segs. s \<noteq> ''..''"
    using assms(1) by (auto simp: plain_segment_def)
  have "split_on sep (join_with [sep] segs @ t) = segs \<or>
        split_on sep (join_with [sep] segs @ t) = segs @ [[]]"
    using assms(2) split_on_join [OF False nosep] split_on_append [of sep "join_with [sep] segs" "[]"]
    by auto
  then have "norm_segs False [] (split_on sep (join_with [sep] segs @ t)) = segs"
    using nodd by (auto simp: norm_segs_no_dotdot filter_plain [OF assms(1)])
  then show ?thesis by simp
qed

lemma join_with_nonempty: "segs \<noteq> [] \<Longrightarrow> \<forall>s\<in>set segs. s \<noteq> [] \<Longrightarrow> join_with c segs \<noteq> []"
  by (induction c segs rule: join_with.induct) auto

section \<open>The path guard keeps paths inside the workspace\<close>

lemma safeJoin_without_dots:
  assumes abs: "isAbsolute (WORKSPACE e)"
    and notroot: "resolve_segs e (WORKSPACE e) \<noteq> []"
    and nodots: "\<not> str_includes p ''..''"
  shows "safeJoin e (WORKSPACE e) [p] = Inr (path_join [WORKSPACE e, p])
       \<and> isPathInside e (path_join [WORKSPACE e, p]) (WORKSPACE e)
       \<and> prefix (resolve_segs e (WORKSPACE e)) (resolve_segs e (path_join [WORKSPACE e, p]))"
proof -
  let ?ws = "WORKSPACE e"
  let ?R = "resolve_segs e ?ws"
  let ?extra = "filter (\<lambda>s. s \<noteq> [] \<and> s \<noteq> ''.'') (split_on sep p)"
  define j where "j = join_with [sep] (filter (\<lambda>a. a \<noteq> []) [?ws, p])"
  have ws_ne: "?ws \<noteq> []" using abs by (auto simp: isAbsolute_def)
  have R: "?R = norm_segs False [] (split_on sep ?ws)"
    using abs by (simp add: resolve_segs_def)
  have j_cases: "j = ?ws \<and> p = [] \<or> j = ?ws @ sep # p"
    using ws_ne by (cases "p = []") (auto simp: j_def)
  have j_abs: "isAbsolute j" and j_ne: "j \<noteq> []"
    using j_cases abs ws_ne by (auto simp: isAbsolute_def)
  have seg_p: "\<forall>s\<in>set (split_on sep p). s \<noteq> ''..''"
  proof
    fix s assume "s \<in> set (split_on sep p)"
    then have "str_includes p s" by (rule split_on_segment_included)
    with nodots show "s \<noteq> ''..''" by auto
  qed
  have Nj: "norm_segs False [] (split_on sep j) = ?R @ ?extra"
  proof -
    from j_cases show ?thesis
    proof
      assume "j = ?ws \<and> p = []"
      then show ?thesis using R by simp
    next
      assume "j = ?ws @ sep # p"
      then have "split_on sep j = split_on sep ?ws @ split_on sep p"
        by (simp only: split_on_append)
      then have "norm_segs False [] (split_on sep j)
                   = norm_segs False (norm_segs False [] (split_on sep ?ws)) (split_on sep p)"
        by (simp only: norm_segs_append)
      also have "\<dots> = norm_segs False ?R (split_on sep p)" by (simp only: R)
      also have "\<dots> = ?R @ ?extra" by (rule norm_segs_no_dotdot [OF seg_p])
      finally show ?thesis .
    qed
  qed
  have plain: "\<forall>s\<in>set (?R @ ?extra). plain_segment s"
  proof -
    have "\<forall>r\<in>set (norm_segs False [] (split_on sep j)). plain_segment r"
      by (rule norm_segs_plain) (auto dest: split_on_no_sep)
    then show ?thesis using Nj by simp
  qed
  have RE_ne: "?R @ ?extra \<noteq> []" using notroot by simp
  have join_ne: "join_with [sep] (?R @ ?extra) \<noteq> []"
  proof -
    have "\<forall>s\<in>set (?R @ ?extra). s \<noteq> []"
      using plain unfolding plain_segment_def by blast
    with RE_ne show ?thesis by (rule join_with_nonempty)
  qed
  define t where "t = (if last j = sep then [sep] else [])"
  have joined: "path_join [?ws, p] = sep # join_with [sep] (?R @ ?extra) @ t"
  proof -
    have "path_join [?ws, p] = normalize j"
      unfolding path_join_def j_def [symmetric] Let_def using j_ne by simp
    also have "\<dots> = sep # join_with [sep] (?R @ ?extra) @ t"
      using j_abs j_ne join_ne Nj
      by (simp add: normalize_def normalizeString_def Let_def t_def)
    finally show ?thesis .
  qed
  have t: "t = [] \<or> t = [sep]" by (simp add: t_def)
  have res: "resolve_segs e (path_join [?ws, p]) = ?R @ ?extra"
    using norm_segs_of_joined [OF plain t]
    by (simp add: joined resolve_segs_def isAbsolute_def)
  have "prefix (join_with [sep] ?R @ [sep]) (join_with [sep] (?R @ ?extra) @ [sep])"
  proof (cases "?extra = []")
    case True
    then show ?thesis by simp
  next
    case False
    then show ?thesis using notroot by (simp add: join_with_append)
  qed
  then have inside: "isPathInside e (path_join [?ws, p]) ?ws"
    by (simp add: isPathInside_def resolve_def res startsWith_def)
  from inside nodots res show ?thesis by (simp add: safeJoin_def)
qed

text \<open>
  Claim C2. Let the workspace root be an absolute path other than the root directory (the
  source computes it as a resolved path that ends in \<^verbatim>\<open>workspace\<close>). For a path \<open>p\<close> none of
  whose segments contains two dots in a row, \<^const>\<open>safeJoin\<close> returns the joined path, the check
  \<^const>\<open>isPathInside\<close> holds for it, and its resolved segments start with the segments of the
  root: it is the root or lies below it. A path with a segment that contains two dots, so every
  path with a \<^verbatim>\<open>..\<close> segment, is refused with \<^verbatim>\<open>Path traversal blocked\<close>.
\<close>

theorem safeJoin_descendant_or_blocked:
  assumes "isAbsolute (WORKSPACE e)"
    and "resolve_segs e (WORKSPACE e) \<noteq> []"
  shows "(list_all (\<lambda>s. \<not> str_includes s ''..'') (split_on sep p) \<longrightarrow>
           safeJoin e (WORKSPACE e) [p] = Inr (path_join [WORKSPACE e, p])
           \<and> isPathInside e (path_join [WORKSPACE e, p]) (WORKSPACE e)
           \<and> prefix (resolve_segs e (WORKSPACE e)) (resolve_segs e (path_join [WORKSPACE e, p])))
       \<and> (list_ex (\<lambda>s. str_includes s ''..'') (split_on sep p) \<longrightarrow>
           safeJoin e (WORKSPACE e) [p] = Inl ''Path traversal blocked'')
       \<and> (''..'' \<in> set (split_on sep p) \<longrightarrow>
           safeJoin e (WORKSPACE e) [p] = Inl ''Path traversal blocked'')"
proof -
  have iff: "list_all (\<lambda>s. \<not> str_includes s ''..'') (split_on sep p) = (\<not> str_includes p ''..'')"
    using segment_dots_iff [of p] by (auto simp: list_all_iff list_ex_iff)
  have seg: "''..'' \<in> set (split_on sep p) \<Longrightarrow> str_includes p ''..''"
    by (rule split_on_segment_included)
  show ?thesis
    using safeJoin_without_dots [OF assms, of p] iff segment_dots_iff [of p] seg
    by (auto simp: safeJoin_def)
qed

theorem safeJoin_descendant_or_blocked_witness:
  "list_all (\<lambda>s. \<not> str_includes s ''..'') (split_on sep ''src/./App.tsx'')
   \<and> safeJoin example_env (WORKSPACE example_env) [''src/./App.tsx'']
       = Inr ''/srv/workspace/src/App.tsx''
   \<and> prefix [''srv'', ''workspace''] (resolve_segs example_env ''/srv/workspace/src/App.tsx'')
   \<and> ''..'' \<in> set (split_on sep ''src/../../etc/passwd'')
   \<and> safeJoin example_env (WORKSPACE example_env) [''src/../../etc/passwd'']
       = Inl ''Path traversal blocked''"
proof -
  have a: "isAbsolute (WORKSPACE example_env)" by code_simp
  have r: "resolve_segs example_env (WORKSPACE example_env) = [''srv'', ''workspace'']"
    by code_simp
  then have nr: "resolve_segs example_env (WORKSPACE example_env) \<noteq> []" by simp
  have ok: "list_all (\<lambda>s. \<not> str_includes s ''..'') (split_on sep ''src/./App.tsx'')"
    by code_simp
  have j: "path_join [WORKSPACE example_env, ''src/./App.tsx''] = ''/srv/workspace/src/App.tsx''"
    by code_simp
  have bad: "''..'' \<in> set (split_on sep ''src/../../etc/passwd'')" by code_simp
  from safeJoin_descendant_or_blocked [OF a nr, of "''src/./App.tsx''"] ok
  have "safeJoin example_env (WORKSPACE example_env) [''src/./App.tsx'']
          = Inr (path_join [WORKSPACE example_env, ''src/./App.tsx''])
        \<and> prefix (resolve_segs example_env (WORKSPACE example_env))
            (resolve_segs example_env (path_join [WORKSPACE example_env, ''src/./App.tsx'']))"
    by simp
  moreover from safeJoin_descendant_or_blocked [OF a nr, of "''src/../../etc/passwd''"] bad
  have "safeJoin example_env (WORKSPACE example_env) [''src/../../etc/passwd'']
          = Inl ''Path traversal blocked''"
    by simp
  ultimately show ?thesis using ok bad unfolding j r by simp
qed


section \<open>Globs: what the compiled patterns match\<close>

text \<open>
  Claim C7, evaluated. The replacements run one after another over the whole text, so the
  \<^verbatim>\<open>.*\<close> written for \<^verbatim>\<open>**\<close> is rewritten by the rule for \<^verbatim>\<open>*\<close> into \<^verbatim>\<open>.[^/]*\<close>, and the group
  \<^verbatim>\<open>(?:.*?/)?\<close> written for \<^verbatim>\<open>**/\<close> is rewritten by the rules for \<^verbatim>\<open>*\<close> and \<^verbatim>\<open>?\<close> into
  \<^verbatim>\<open>(.:.[^/]*./).\<close>. The pattern \<^verbatim>\<open>src/**\<close> therefore matches neither \<^verbatim>\<open>src/test/Foo.ts\<close> nor
  \<^verbatim>\<open>src/\<close>, the pattern \<^verbatim>\<open>**/*.ts\<close> matches neither \<^verbatim>\<open>a.ts\<close> nor \<^verbatim>\<open>src/a.ts\<close>, and \<^verbatim>\<open>a?c\<close>
  matches \<^verbatim>\<open>a/c\<close>. A single \<^verbatim>\<open>*\<close> does stop at the separator.
\<close>

theorem globToRegExp_double_star_rewritten:
  "globToRegExp ''src/**'' = ''^src/.[^/]*$''
   \<and> regexp_test (globToRegExp ''src/**'') ''src/test/Foo.ts'' = Some False
   \<and> regexp_test (globToRegExp ''src/**'') ''src/'' = Some False
   \<and> globToRegExp ''**/*.ts'' = ''^(.:.[^/]*./).[^/]*'' @ [backslash] @ ''.ts$''
   \<and> regexp_test (globToRegExp ''**/*.ts'') ''a.ts'' = Some False
   \<and> regexp_test (globToRegExp ''**/*.ts'') ''src/a.ts'' = Some False
   \<and> globToRegExp ''a?c'' = ''^a.c$''
   \<and> regexp_test (globToRegExp ''a?c'') ''a/c'' = Some True
   \<and> regexp_test (globToRegExp ''*.ts'') ''a.ts'' = Some True
   \<and> regexp_test (globToRegExp ''*.ts'') ''b/a.ts'' = Some False"
  by code_simp


end
